theory Spec2Isabelle
  imports Complex_Main
begin

section \<open>Python floats\<close>

text \<open>
  The notebook computes on Python \<open>float\<close> values, which are IEEE 754 binary64 numbers.
  A float is a finite real, an infinity or a not-a-number. The two zeros \<open>0.0\<close> and
  \<open>-0.0\<close>, which Python's \<open>==\<close> does not tell apart, are one value here.
\<close>

datatype pyfloat = Fin real | PInf | NInf | NaN

datatype error =
    ZeroDivisionError | ValueError | IndexError | KeyError | TypeError | TypingError

text \<open>
  Rounding to the nearest binary64 number, ties to the even significand: the unit in the
  last place of \<open>r\<close> is \<open>2\<close> to the power \<open>ulp_exp r\<close> (53 significant bits, the exponent of a
  subnormal held at \<open>-1022\<close>), and a result of magnitude \<open>2 ^ 1024\<close> or more is an infinity.
\<close>

definition round_half_even :: "real \<Rightarrow> int" where
  "round_half_even q =
     (let f = \<lfloor>q\<rfloor> in
      if q - of_int f < 1 / 2 then f
      else if 1 / 2 < q - of_int f then f + 1
      else if even f then f else f + 1)"

definition ulp_exp :: "real \<Rightarrow> int" where
  "ulp_exp r = max \<lfloor>log 2 \<bar>r\<bar>\<rfloor> (- 1022) - 52"

definition rnd64 :: "real \<Rightarrow> pyfloat" where
  "rnd64 r =
     (if r = 0 then Fin 0
      else let u = 2 powi ulp_exp r;
               v = of_int (round_half_even (r / u)) * u
           in if 2 powi 1024 \<le> \<bar>v\<bar> then (if 0 < r then PInf else NInf) else Fin v)"

text \<open>\<open>abs(x)\<close> on a float.\<close>

fun fabs :: "pyfloat \<Rightarrow> pyfloat" where
  "fabs (Fin v) = Fin \<bar>v\<bar>"
| "fabs PInf = PInf"
| "fabs NInf = PInf"
| "fabs NaN = NaN"

text \<open>\<open>a < b\<close> on floats: every comparison with a not-a-number is false.\<close>

fun flt :: "pyfloat \<Rightarrow> pyfloat \<Rightarrow> bool" where
  "flt NaN b = False"
| "flt a NaN = False"
| "flt (Fin a) (Fin b) = (a < b)"
| "flt a NInf = False"
| "flt NInf b = True"
| "flt PInf b = False"
| "flt a PInf = True"

text \<open>
  The builtins \<open>min(x, y)\<close> and \<open>max(x, y)\<close> start from the first argument and replace it
  by the second when the second is smaller (\<open>y < x\<close>), respectively larger (\<open>y > x\<close>).
\<close>

definition pymin :: "pyfloat \<Rightarrow> pyfloat \<Rightarrow> pyfloat" where
  "pymin x y = (if flt y x then y else x)"

definition pymax :: "pyfloat \<Rightarrow> pyfloat \<Rightarrow> pyfloat" where
  "pymax x y = (if flt x y then y else x)"

text \<open>\<open>a + b\<close> and \<open>a * b\<close> never raise; an overflow gives an infinity.\<close>

fun fadd :: "pyfloat \<Rightarrow> pyfloat \<Rightarrow> pyfloat" where
  "fadd NaN b = NaN"
| "fadd a NaN = NaN"
| "fadd (Fin a) (Fin b) = rnd64 (a + b)"
| "fadd PInf NInf = NaN"
| "fadd NInf PInf = NaN"
| "fadd PInf b = PInf"
| "fadd NInf b = NInf"
| "fadd a PInf = PInf"
| "fadd a NInf = NInf"

fun fneg :: "pyfloat \<Rightarrow> pyfloat" where
  "fneg (Fin v) = Fin (- v)"
| "fneg PInf = NInf"
| "fneg NInf = PInf"
| "fneg NaN = NaN"

fun fmul :: "pyfloat \<Rightarrow> pyfloat \<Rightarrow> pyfloat" where
  "fmul NaN b = NaN"
| "fmul a NaN = NaN"
| "fmul (Fin a) (Fin b) = rnd64 (a * b)"
| "fmul (Fin a) b = (if a = 0 then NaN else if 0 < a then b else fneg b)"
| "fmul a (Fin b) = (if b = 0 then NaN else if 0 < b then a else fneg a)"
| "fmul PInf b = b"
| "fmul NInf b = fneg b"

text \<open>\<open>a / b\<close> raises \<open>ZeroDivisionError\<close> when the divisor is zero, whatever \<open>a\<close> is.\<close>

fun fquot :: "pyfloat \<Rightarrow> pyfloat \<Rightarrow> pyfloat" where
  "fquot NaN b = NaN"
| "fquot a NaN = NaN"
| "fquot (Fin a) (Fin b) = rnd64 (a / b)"
| "fquot (Fin a) b = Fin 0"
| "fquot a (Fin b) = (if 0 < b then a else fneg a)"
| "fquot a b = NaN"

definition fdiv :: "pyfloat \<Rightarrow> pyfloat \<Rightarrow> error + pyfloat" where
  "fdiv a b = (if b = Fin 0 then Inl ZeroDivisionError else Inr (fquot a b))"

text \<open>
  \<open>math.sqrt(a)\<close> raises \<open>ValueError\<close> (math domain error) on a negative number and on
  minus infinity, and hands a not-a-number through.
\<close>

fun fsqrt :: "pyfloat \<Rightarrow> error + pyfloat" where
  "fsqrt (Fin a) = (if a < 0 then Inl ValueError else Inr (rnd64 (sqrt a)))"
| "fsqrt PInf = Inr PInf"
| "fsqrt NInf = Inl ValueError"
| "fsqrt NaN = Inr NaN"

section \<open>The scalar example\<close>

text \<open>
  \<^verbatim>\<open>
  def hypot(x, y):
      x = abs(x);
      y = abs(y);
      t = min(x, y);
      x = max(x, y);
      t = t / x;
      return x * math.sqrt(1+t*t)
  \<close>
\<close>

definition hypot :: "pyfloat \<Rightarrow> pyfloat \<Rightarrow> error + pyfloat" where
  "hypot x y =
     (let x1 = fabs x;
          y1 = fabs y;
          t = pymin x1 y1;
          x2 = pymax x1 y1
      in case fdiv t x2 of
           Inl e \<Rightarrow> Inl e
         | Inr t1 \<Rightarrow>
             (case fsqrt (fadd (Fin 1) (fmul t1 t1)) of
                Inl e \<Rightarrow> Inl e
              | Inr r \<Rightarrow> Inr (fmul x2 r)))"

section \<open>The array example\<close>

text \<open>
  A NumPy array of floats is a mutable object: the caller and the callee share it, and two
  arguments of one call may be the same array. The store maps the address of an array to
  its elements; an argument is an address. Arrays at different addresses share no memory
  (a view that overlaps another array only in part is not modelled).
\<close>

type_synonym addr = nat

type_synonym store = "addr \<Rightarrow> pyfloat list"

text \<open>
  \<open>a[i]\<close> and \<open>a[i] = v\<close> on a one-dimensional array, with an index from \<open>range\<close>, which is
  never negative: an index at or beyond the length is \<open>IndexError\<close>.
\<close>

definition getitem :: "store \<Rightarrow> addr \<Rightarrow> nat \<Rightarrow> error + pyfloat" where
  "getitem s a i = (if i < length (s a) then Inr (s a ! i) else Inl IndexError)"

definition setitem :: "store \<Rightarrow> addr \<Rightarrow> nat \<Rightarrow> pyfloat \<Rightarrow> error + store" where
  "setitem s a i v =
     (if i < length (s a) then Inr (s(a := (s a)[i := v])) else Inl IndexError)"

text \<open>
  \<open>for i in range(n): body\<close> over the indices in turn. An exception in the body ends the
  loop and leaves the store as it is at that moment, so the result is the exception, if
  any, together with the store.
\<close>

primrec for_range ::
  "nat list \<Rightarrow> (nat \<Rightarrow> store \<Rightarrow> error option \<times> store) \<Rightarrow> store \<Rightarrow> error option \<times> store"
where
  "for_range [] body s = (None, s)"
| "for_range (i # is) body s =
     (case body i s of
        (None, s') \<Rightarrow> for_range is body s'
      | (Some e, s') \<Rightarrow> (Some e, s'))"

text \<open>
  The notebook binds the name \<open>ex1\<close> twice. The first cell is the starting point of the
  exercise:
  \<^verbatim>\<open>
  def ex1(x, y, out):
      for i in range(x.shape[0]):
          out[i] = x[i] + y[i]
  \<close>
\<close>

definition ex1_sum_body :: "addr \<Rightarrow> addr \<Rightarrow> addr \<Rightarrow> nat \<Rightarrow> store \<Rightarrow> error option \<times> store" where
  "ex1_sum_body x y out i s =
     (case getitem s x i of
        Inl e \<Rightarrow> (Some e, s)
      | Inr a \<Rightarrow>
          (case getitem s y i of
             Inl e \<Rightarrow> (Some e, s)
           | Inr b \<Rightarrow>
               (case setitem s out i (fadd a b) of
                  Inl e \<Rightarrow> (Some e, s)
                | Inr s' \<Rightarrow> (None, s'))))"

definition ex1_sum :: "store \<Rightarrow> addr \<Rightarrow> addr \<Rightarrow> addr \<Rightarrow> error option \<times> store" where
  "ex1_sum s x y out = for_range [0..<length (s x)] (ex1_sum_body x y out) s"

text \<open>
  The second cell rebinds \<open>ex1\<close>; this is the function that the notebook then calls and
  compares with \<open>np.hypot\<close>:
  \<^verbatim>\<open>
  def ex1(x, y, out):
      for i in range(x.shape[0]):
          out[i] = hypot(x[i] , y[i])
  \<close>
\<close>

definition ex1_body :: "addr \<Rightarrow> addr \<Rightarrow> addr \<Rightarrow> nat \<Rightarrow> store \<Rightarrow> error option \<times> store" where
  "ex1_body x y out i s =
     (case getitem s x i of
        Inl e \<Rightarrow> (Some e, s)
      | Inr a \<Rightarrow>
          (case getitem s y i of
             Inl e \<Rightarrow> (Some e, s)
           | Inr b \<Rightarrow>
               (case hypot a b of
                  Inl e \<Rightarrow> (Some e, s)
                | Inr h \<Rightarrow>
                    (case setitem s out i h of
                       Inl e \<Rightarrow> (Some e, s)
                     | Inr s' \<Rightarrow> (None, s')))))"

definition ex1 :: "store \<Rightarrow> addr \<Rightarrow> addr \<Rightarrow> addr \<Rightarrow> error option \<times> store" where
  "ex1 s x y out = for_range [0..<length (s x)] (ex1_body x y out) s"

text \<open>
  The run of the notebook:
  \<^verbatim>\<open>
  in1 = np.arange(10, dtype=np.float64)
  in2 = 2 * in1 + 1
  out = np.empty_like(in1)
  ex1(in1, in2, out)
  np.testing.assert_almost_equal(out, np.hypot(in1, in2))
  \<close>
  The three arrays are new ones, at the addresses 0, 1 and 2. \<open>np.empty_like\<close> leaves the
  elements of \<open>out\<close> unset, so the store takes them as a parameter.
\<close>

definition in1 :: "pyfloat list" where
  "in1 = map (\<lambda>i. Fin (real i)) [0..<10]"

definition in2 :: "pyfloat list" where
  "in2 = map (\<lambda>v. fadd (fmul (Fin 2) v) (Fin 1)) in1"

definition notebook_store :: "pyfloat list \<Rightarrow> store" where
  "notebook_store out0 = (\<lambda>a. [])(0 := in1, 1 := in2, 2 := out0)"

text \<open>
  \<open>np.testing.assert_almost_equal(actual, desired)\<close> with its default of 7 decimals passes
  on two arrays of one length when, element by element,
  \<open>abs(desired - actual) < 1.5 * 10.0**(-7)\<close>, all of it computed on floats; an infinity or a
  not-a-number has to face the same value. The power \<open>10.0**(-7)\<close> is the float nearest to
  the real number, and \<open>a - b\<close> is \<open>a + (-b)\<close>.
\<close>

definition fsub :: "pyfloat \<Rightarrow> pyfloat \<Rightarrow> pyfloat" where
  "fsub a b = fadd a (fneg b)"

definition decimal7 :: pyfloat where
  "decimal7 = fmul (Fin (3 / 2)) (rnd64 (1 / 10 ^ 7))"

fun almost_equal :: "pyfloat \<Rightarrow> pyfloat \<Rightarrow> bool" where
  "almost_equal (Fin v) (Fin w) = flt (fabs (fsub (Fin w) (Fin v))) decimal7"
| "almost_equal a d = (a = d)"

text \<open>
  \<open>np.hypot\<close> is a function of the NumPy library, not of the repository; its documentation
  gives its value as \<open>sqrt(x1**2 + x2**2)\<close>, element by element. Its result is a parameter
  of the comparison: an array \<open>ref\<close> is taken as a result of \<open>np.hypot(xs, ys)\<close> on finite
  inputs when it has their length and each of its elements is a number within \<open>10**(-7)\<close>
  of the real hypotenuse.
\<close>

definition np_hypot_result :: "pyfloat list \<Rightarrow> pyfloat list \<Rightarrow> pyfloat list \<Rightarrow> bool" where
  "np_hypot_result xs ys ref =
     (length ref = length xs \<and>
      (\<forall>i<length xs. \<exists>a b w. xs ! i = Fin a \<and> ys ! i = Fin b \<and> ref ! i = Fin w \<and>
          \<bar>w - sqrt (a\<^sup>2 + b\<^sup>2)\<bar> \<le> 1 / 10 ^ 7))"

section \<open>The function that cannot be compiled\<close>

text \<open>
  The values that the notebook passes around: floats, strings and dictionaries with
  string keys.
\<close>

datatype pyobj = PFloat pyfloat | PStr string | PDict "(string \<times> pyobj) list"

text \<open>
  \<^verbatim>\<open>
  def cannot_compile(x):
      return x['key']
  \<close>
  A dictionary without the key raises \<open>KeyError\<close>; a float or a string subscripted with a
  string raises \<open>TypeError\<close>.
\<close>

fun cannot_compile :: "pyobj \<Rightarrow> error + pyobj" where
  "cannot_compile (PDict d) =
     (case map_of d ''key'' of Some v \<Rightarrow> Inr v | None \<Rightarrow> Inl KeyError)"
| "cannot_compile (PFloat f) = Inl TypeError"
| "cannot_compile (PStr t) = Inl TypeError"

text \<open>
  Modelled from the spec: the decorator \<open>jit\<close> of the external compiler, whose code is not
  part of the repository. The spec describes it as a decorator that takes a function and
  optional compilation-mode flags and returns a callable; in the strict mode
  (\<open>nopython=True\<close>) the call fails loudly, with the compiler's typing error, when the type of
  an argument cannot be resolved, and in the default mode it falls back silently to the
  untyped execution path, which runs the Python function itself. The one unsupported
  argument type that the spec names is the associative container.
\<close>

datatype jit_mode = Default | Nopython

text \<open>
  Modelled from the spec: the argument types that the external compiler cannot resolve.
  The spec names the associative container and no other type.
\<close>

fun unsupported :: "pyobj \<Rightarrow> bool" where
  "unsupported (PDict d) = True"
| "unsupported (PFloat f) = False"
| "unsupported (PStr t) = False"

text \<open>
  Modelled from the spec: a call of the callable that the external compiler's decorator
  returns for the function \<open>f\<close>, in the given mode.
\<close>

definition jit :: "jit_mode \<Rightarrow> (pyobj \<Rightarrow> error + pyobj) \<Rightarrow> pyobj \<Rightarrow> error + pyobj" where
  "jit mode f a =
     (if unsupported a
      then (case mode of Nopython \<Rightarrow> Inl TypingError | Default \<Rightarrow> f a)
      else f a)"

section \<open>The accelerated scalar function\<close>

text \<open>
  \<open>hypot\<close> as a function on Python values: \<open>abs\<close> of a string or of a dictionary raises
  \<open>TypeError\<close>.
\<close>

fun hypot_obj :: "pyobj \<Rightarrow> pyobj \<Rightarrow> error + pyobj" where
  "hypot_obj (PFloat x) (PFloat y) =
     (case hypot x y of Inl e \<Rightarrow> Inl e | Inr v \<Rightarrow> Inr (PFloat v))"
| "hypot_obj a b = Inl TypeError"

text \<open>
  Modelled from the spec: a call of the callable that the external compiler's decorator
  returns for a function \<open>f\<close> of two arguments, such as \<open>hypot\<close> under \<open>@jit\<close>. On arguments
  of supported types the callable runs the type-specialised implementation that it
  compiles at the first call; the spec describes that as an accelerated version of the
  same function, so it returns what the function returns. \<open>f\<close> itself is the attribute
  \<open>py_func\<close> of the callable, the original Python function.
\<close>

definition jit2 ::
  "jit_mode \<Rightarrow> (pyobj \<Rightarrow> pyobj \<Rightarrow> error + pyobj) \<Rightarrow> pyobj \<Rightarrow> pyobj \<Rightarrow> error + pyobj" where
  "jit2 mode f a b =
     (if unsupported a \<or> unsupported b
      then (case mode of Nopython \<Rightarrow> Inl TypingError | Default \<Rightarrow> f a b)
      else f a b)"

section \<open>Auxiliary notions of the proofs\<close>

text \<open>A float that is not below zero: a non-negative number, plus infinity or not-a-number.\<close>

fun nonneg :: "pyfloat \<Rightarrow> bool" where
  "nonneg (Fin v) = (0 \<le> v)"
| "nonneg PInf = True"
| "nonneg NInf = False"
| "nonneg NaN = True"

text \<open>
  Both bodies have one shape: read \<open>x[i]\<close>, read \<open>y[i]\<close>, combine the two, write \<open>out[i]\<close>.
\<close>

definition elementwise_body ::
  "(pyfloat \<Rightarrow> pyfloat \<Rightarrow> error + pyfloat) \<Rightarrow> addr \<Rightarrow> addr \<Rightarrow> addr \<Rightarrow> nat \<Rightarrow> store
     \<Rightarrow> error option \<times> store" where
  "elementwise_body f x y out i s =
     (if i < length (s x) \<and> i < length (s y) then
        (case f (s x ! i) (s y ! i) of
           Inl e \<Rightarrow> (Some e, s)
         | Inr h \<Rightarrow>
             if i < length (s out) then (None, s(out := (s out)[i := h]))
             else (Some IndexError, s))
      else (Some IndexError, s))"

text \<open>
  A store for the concrete runs: \<open>x = np.array([3.0])\<close> at address 0, \<open>y = np.array([4.0])\<close>
  at address 1 and \<open>out = np.array([0.0, 9.0])\<close> at address 2.
\<close>

definition store_3_4 :: store where
  "store_3_4 = (\<lambda>a. [])(0 := [Fin 3], 1 := [Fin 4], 2 := [Fin 0, Fin 9])"

text \<open>
  One reference that meets the documentation of \<open>np.hypot\<close>: the real hypotenuse, rounded
  once. An infinite argument gives plus infinity, and otherwise a not-a-number gives a
  not-a-number.
\<close>

definition hypot_rounded :: "pyfloat \<Rightarrow> pyfloat \<Rightarrow> pyfloat" where
  "hypot_rounded a b =
     (if a = PInf \<or> a = NInf \<or> b = PInf \<or> b = NInf then PInf
      else case (a, b) of
             (Fin u, Fin v) \<Rightarrow> rnd64 (sqrt (u\<^sup>2 + v\<^sup>2))
           | _ \<Rightarrow> NaN)"

section \<open>Rounding\<close>

lemma round_half_even_of_int: "round_half_even (of_int n) = n"
  by (simp add: round_half_even_def)

lemma round_half_even_nonneg: "0 \<le> q \<Longrightarrow> 0 \<le> round_half_even q"
  by (auto simp: round_half_even_def Let_def)

lemma floor_log2_powi:
  assumes "2 powi k \<le> \<bar>r\<bar>" "\<bar>r\<bar> < 2 powi (k + 1)"
  shows "\<lfloor>log 2 \<bar>r\<bar>\<rfloor> = k"
proof -
  have "0 < \<bar>r\<bar>"
    using assms(1) by (smt (verit) zero_less_power_int)
  moreover have "(2::real) powr of_int k = 2 powi k"
    by (simp add: powr_real_of_int')
  moreover have "(2::real) powr (of_int k + 1) = 2 powi (k + 1)"
    using powr_real_of_int'[of "2::real" "k + 1"] by simp
  ultimately show ?thesis
    using assms by (simp add: floor_log_eq_powr_iff)
qed

text \<open>
  A number with at most 53 significant bits in the normal range is a binary64 number, and
  rounding leaves it alone.
\<close>

lemma rnd64_exact:
  assumes n: "r = of_int n * 2 powi (k - 52)"
    and lo: "2 powi k \<le> \<bar>r\<bar>" and hi: "\<bar>r\<bar> < 2 powi (k + 1)"
    and k1: "- 1022 \<le> k" and k2: "k < 1024"
  shows "rnd64 r = Fin r"
proof -
  have r0: "r \<noteq> 0"
    using lo by (smt (verit) zero_less_power_int)
  have ue: "ulp_exp r = k - 52"
    using k1 by (simp add: ulp_exp_def floor_log2_powi[OF lo hi])
  have q: "r / 2 powi (k - 52) = of_int n"
    using n by simp
  have "(2::real) powi (k + 1) \<le> 2 powi 1024"
    using k2 by (intro power_int_increasing) auto
  then have "\<not> 2 powi 1024 \<le> \<bar>r\<bar>"
    using hi by linarith
  then show ?thesis
    unfolding rnd64_def Let_def ue q round_half_even_of_int n[symmetric]
    using r0 by (simp only: if_False)
qed

lemma rnd64_1: "rnd64 1 = Fin 1"
  by (rule rnd64_exact[where k=0 and n="2^52"]) (simp_all add: power_int_minus)

lemma rnd64_2: "rnd64 2 = Fin 2"
  by (rule rnd64_exact[where k=1 and n="2^52"]) (simp_all add: power_int_minus)

lemma rnd64_3_4: "rnd64 (3 / 4) = Fin (3 / 4)"
  by (rule rnd64_exact[where k="-1" and n="3 * 2^51"]) (simp_all add: power_int_minus)

lemma rnd64_9_16: "rnd64 (9 / 16) = Fin (9 / 16)"
  by (rule rnd64_exact[where k="-1" and n="9 * 2^49"]) (simp_all add: power_int_minus)

lemma rnd64_25_16: "rnd64 (25 / 16) = Fin (25 / 16)"
  by (rule rnd64_exact[where k=0 and n="25 * 2^48"]) (simp_all add: power_int_minus)

lemma rnd64_5_4: "rnd64 (5 / 4) = Fin (5 / 4)"
  by (rule rnd64_exact[where k=0 and n="5 * 2^50"]) (simp_all add: power_int_minus)

lemma rnd64_5: "rnd64 5 = Fin 5"
  by (rule rnd64_exact[where k=2 and n="5 * 2^50"]) (simp_all add: power_int_minus)

lemma rnd64_7: "rnd64 7 = Fin 7"
  by (rule rnd64_exact[where k=2 and n="7 * 2^50"]) (simp_all add: power_int_minus)

lemma rnd64_not_NaN: "rnd64 r \<noteq> NaN"
  by (simp add: rnd64_def Let_def)

lemma rnd64_nonneg:
  assumes r: "0 \<le> r"
  shows "nonneg (rnd64 r)"
proof -
  have "0 \<le> r / 2 powi ulp_exp r"
    using r by simp
  then have "0 \<le> round_half_even (r / 2 powi ulp_exp r)"
    by (rule round_half_even_nonneg)
  then have "0 \<le> real_of_int (round_half_even (r / 2 powi ulp_exp r)) * 2 powi ulp_exp r"
    by simp
  then show ?thesis
    using r by (simp add: rnd64_def Let_def)
qed

lemma rnd64_of_nat:
  assumes "0 < n" and "n < 2 ^ 53"
  shows "rnd64 (real n) = Fin (real n)"
proof -
  define r where "r = real n"
  define k where "k = \<lfloor>log 2 \<bar>r\<bar>\<rfloor>"
  have rpos: "1 \<le> r"
    using assms(1) by (simp add: r_def)
  have pk: "(2::real) powr of_int k = 2 powi k"
    by (simp add: powr_real_of_int')
  have pk1: "(2::real) powr (of_int k + 1) = 2 powi (k + 1)"
    using powr_real_of_int'[of "2::real" "k + 1"] by simp
  have "2 powr of_int k \<le> \<bar>r\<bar> \<and> \<bar>r\<bar> < 2 powr (of_int k + 1)"
    using floor_log_eq_powr_iff[of "\<bar>r\<bar>" 2 k] rpos k_def by simp
  then have klo: "2 powi k \<le> \<bar>r\<bar>" and khi: "\<bar>r\<bar> < 2 powi (k + 1)"
    by (simp_all add: pk pk1)
  have k0: "0 \<le> k"
    unfolding k_def using rpos by simp
  have k52: "k \<le> 52"
  proof -
    have "r < 2 ^ 53"
      using assms(2) unfolding r_def by (metis of_nat_less_iff of_nat_numeral of_nat_power)
    then have "(2::real) powi k < 2 powi 53"
      using klo rpos by simp
    moreover have "(2::real) powi 53 \<le> 2 powi k" if "53 \<le> k"
      using that by (intro power_int_increasing) auto
    ultimately have "\<not> 53 \<le> k"
      by fastforce
    then show ?thesis
      by simp
  qed
  define j where "j = nat (52 - k)"
  have "(2::real) powi (k - 52) = 1 / 2 ^ j"
    using k52 by (simp add: j_def power_int_def power_one_over)
  then have "r = of_int (int n * 2 ^ j) * 2 powi (k - 52)"
    by (simp add: r_def)
  from rnd64_exact[OF this klo khi] k0 k52 show ?thesis
    by (simp add: r_def)
qed

lemma rnd64_11: "rnd64 11 = Fin 11"
  using rnd64_of_nat[of 11] by simp

text \<open>
  Rounding moves a number by at most half a unit in the last place: in the normal range
  the relative error is at most \<open>2\<close> to the power \<open>-53\<close>, and the result is finite.
\<close>

lemma round_half_even_close: "\<bar>of_int (round_half_even q) - q\<bar> \<le> 1 / 2"
  unfolding round_half_even_def Let_def by (auto simp: abs_le_iff; linarith)

lemma rnd64_close:
  assumes lo: "2 powi (- 1022) \<le> \<bar>r\<bar>" and hi: "\<bar>r\<bar> \<le> 2 powi 1023"
  shows "\<exists>v. rnd64 r = Fin v \<and> \<bar>v - r\<bar> \<le> \<bar>r\<bar> / 2 ^ 53"
proof -
  define k where "k = \<lfloor>log 2 \<bar>r\<bar>\<rfloor>"
  have rpos: "0 < \<bar>r\<bar>"
    using lo by (smt (verit) zero_less_power_int)
  then have r0: "r \<noteq> 0"
    by auto
  have pk: "(2::real) powr of_int k = 2 powi k"
    by (simp add: powr_real_of_int')
  have pk1: "(2::real) powr (of_int k + 1) = 2 powi (k + 1)"
    using powr_real_of_int'[of "2::real" "k + 1"] by simp
  have "2 powr of_int k \<le> \<bar>r\<bar> \<and> \<bar>r\<bar> < 2 powr (of_int k + 1)"
    using floor_log_eq_powr_iff[of "\<bar>r\<bar>" 2 k] rpos k_def by simp
  then have klo: "2 powi k \<le> \<bar>r\<bar>" and khi: "\<bar>r\<bar> < 2 powi (k + 1)"
    by (simp_all add: pk pk1)
  have k1: "- 1022 \<le> k"
  proof -
    have "(2::real) powi (- 1022) < 2 powi (k + 1)"
      using lo khi by linarith
    moreover have "(2::real) powi (k + 1) \<le> 2 powi (- 1022)" if "k + 1 \<le> - 1022"
      using that by (intro power_int_increasing) auto
    ultimately have "\<not> k + 1 \<le> - 1022"
      by fastforce
    then show ?thesis
      by simp
  qed
  have ue: "ulp_exp r = k - 52"
    using k1 by (simp add: ulp_exp_def k_def)
  define u :: real where "u = 2 powi (k - 52)"
  have upos: "0 < u"
    by (simp add: u_def)
  have u53: "u = 2 powi k / 2 ^ 52"
    by (simp add: u_def power_int_diff)
  define n where "n = round_half_even (r / u)"
  define v where "v = of_int n * u"
  have "\<bar>of_int n - r / u\<bar> \<le> 1 / 2"
    unfolding n_def by (rule round_half_even_close)
  then have "\<bar>of_int n - r / u\<bar> * u \<le> 1 / 2 * u"
    using upos by (intro mult_right_mono) auto
  moreover have "\<bar>of_int n - r / u\<bar> * u = \<bar>v - r\<bar>"
  proof -
    have "\<bar>of_int n - r / u\<bar> * u = \<bar>(of_int n - r / u) * u\<bar>"
      using upos by (simp add: abs_mult)
    also have "(of_int n - r / u) * u = v - r"
      using upos by (simp add: v_def field_simps)
    finally show ?thesis .
  qed
  ultimately have err: "\<bar>v - r\<bar> \<le> u / 2"
    by simp
  have "u / 2 = 2 powi k / 2 ^ 53"
    by (simp add: u53)
  also have "\<dots> \<le> \<bar>r\<bar> / 2 ^ 53"
    using klo by (intro divide_right_mono) auto
  finally have ur: "u / 2 \<le> \<bar>r\<bar> / 2 ^ 53" .
  have "\<bar>v\<bar> \<le> \<bar>r\<bar> + \<bar>v - r\<bar>"
    by linarith
  also have "\<dots> \<le> \<bar>r\<bar> + \<bar>r\<bar> / 2 ^ 53"
    using err ur by linarith
  also have "\<dots> < 2 * \<bar>r\<bar>"
    using rpos by (simp add: field_simps)
  also have "\<dots> \<le> 2 * 2 powi 1023"
    using hi by simp
  also have "\<dots> = 2 powi 1024"
    using power_int_add[of "2::real" 1 1023] by simp
  finally have nov: "\<not> 2 powi 1024 \<le> \<bar>v\<bar>"
    by simp
  have "rnd64 r = Fin v"
    using r0 nov
    unfolding rnd64_def Let_def ue u_def[symmetric] n_def[symmetric] v_def[symmetric]
    by simp
  then show ?thesis
    using err ur by auto
qed

lemma rnd64_rel:
  assumes "1 / 2 ^ 20 \<le> r" and "r \<le> 2 ^ 20"
  shows "\<exists>v. rnd64 r = Fin v \<and> \<bar>v - r\<bar> \<le> r / 2 ^ 53"
proof -
  have rpos: "0 < r"
    using assms(1) by (smt (verit) divide_pos_pos zero_less_numeral zero_less_power)
  have "(2::real) powi (- 1022) \<le> 2 powi (- 20)"
    by (intro power_int_increasing) auto
  also have "\<dots> = 1 / 2 ^ 20"
    by (simp add: power_int_minus field_simps)
  finally have lo: "2 powi (- 1022) \<le> \<bar>r\<bar>"
    using assms(1) by linarith
  have "(2::real) ^ 20 = 2 powi 20"
    by simp
  also have "\<dots> \<le> 2 powi 1023"
    by (intro power_int_increasing) auto
  finally have hi: "\<bar>r\<bar> \<le> 2 powi 1023"
    using assms(2) rpos by linarith
  show ?thesis
    using rnd64_close[OF lo hi] rpos by simp
qed

text \<open>
  Below the normal range the error is at most half the smallest subnormal; every number
  of magnitude at most 1 rounds to a number.
\<close>

lemma rnd64_abs_err:
  assumes hi: "\<bar>r\<bar> \<le> 2 powi 1023"
  shows "\<exists>z. rnd64 r = Fin z \<and> \<bar>z - r\<bar> \<le> \<bar>r\<bar> / 2 ^ 53 + 2 powi (- 1075)"
proof (cases "2 powi (- 1022) \<le> \<bar>r\<bar>")
  case True
  from rnd64_close[OF True hi] obtain v where "rnd64 r = Fin v" "\<bar>v - r\<bar> \<le> \<bar>r\<bar> / 2 ^ 53"
    by blast
  moreover have "(0::real) \<le> 2 powi (- 1075)"
    by simp
  ultimately show ?thesis
    by (intro exI[of _ v]) linarith
next
  case small: False
  show ?thesis
  proof (cases "r = 0")
    case True
    then show ?thesis
      by (simp add: rnd64_def)
  next
    case False
    then have rpos: "0 < \<bar>r\<bar>"
      by simp
    define k where "k = \<lfloor>log 2 \<bar>r\<bar>\<rfloor>"
    have pk: "(2::real) powr of_int k = 2 powi k"
      by (simp add: powr_real_of_int')
    have "2 powr of_int k \<le> \<bar>r\<bar>"
      using floor_log_eq_powr_iff[of "\<bar>r\<bar>" 2 k] rpos k_def by simp
    then have klo: "2 powi k \<le> \<bar>r\<bar>"
      by (simp add: pk)
    have "(2::real) powi (- 1022) \<le> 2 powi k" if "- 1022 \<le> k"
      using that by (intro power_int_increasing) auto
    then have "\<not> - 1022 \<le> k"
      using klo small by fastforce
    then have ue: "ulp_exp r = - 1074"
      by (simp add: ulp_exp_def k_def)
    define u :: real where "u = 2 powi (- 1074)"
    have upos: "0 < u"
      by (simp add: u_def)
    define n where "n = round_half_even (r / u)"
    define v where "v = of_int n * u"
    have "\<bar>of_int n - r / u\<bar> \<le> 1 / 2"
      unfolding n_def by (rule round_half_even_close)
    then have "\<bar>of_int n - r / u\<bar> * u \<le> 1 / 2 * u"
      using upos by (intro mult_right_mono) auto
    moreover have "\<bar>of_int n - r / u\<bar> * u = \<bar>v - r\<bar>"
    proof -
      have "\<bar>of_int n - r / u\<bar> * u = \<bar>(of_int n - r / u) * u\<bar>"
        using upos by (simp add: abs_mult)
      also have "(of_int n - r / u) * u = v - r"
        using upos by (simp add: v_def field_simps)
      finally show ?thesis .
    qed
    ultimately have err: "\<bar>v - r\<bar> \<le> u / 2"
      by simp
    have u2: "u / 2 = 2 powi (- 1075)"
      using power_int_add[of "2::real" "- 1075" 1] by (simp add: u_def)
    have "(2::real) powi (- 1075) \<le> 2 powi 1023" "(2::real) powi (- 1022) \<le> 2 powi 1023"
      by (intro power_int_increasing; simp)+
    then have "\<bar>v\<bar> < 2 * 2 powi 1023"
      using err u2 small by linarith
    also have "\<dots> = 2 powi 1024"
      using power_int_add[of "2::real" 1 1023] by simp
    finally have nov: "\<not> 2 powi 1024 \<le> \<bar>v\<bar>"
      by simp
    have "rnd64 r = Fin v"
      using False nov
      unfolding rnd64_def Let_def ue u_def[symmetric] n_def[symmetric] v_def[symmetric]
      by simp
    moreover have "\<bar>v - r\<bar> \<le> \<bar>r\<bar> / 2 ^ 53 + 2 powi (- 1075)"
      using err u2 rpos by (smt (verit) divide_nonneg_pos zero_less_numeral zero_less_power)
    ultimately show ?thesis
      by blast
  qed
qed

lemma rnd64_tiny: "(2::real) powi (- 1075) \<le> 1 / 10 ^ 20"
proof -
  have "(2::real) powi (- 1075) \<le> 2 powi (- 70)"
    by (intro power_int_increasing) auto
  also have "\<dots> = 1 / 2 ^ 70"
    by (simp add: power_int_minus field_simps)
  also have "\<dots> \<le> 1 / 10 ^ 20"
    by simp
  finally show ?thesis .
qed

lemma rnd64_err:
  assumes "\<bar>r\<bar> \<le> 1"
  shows "\<exists>z. rnd64 r = Fin z \<and> \<bar>z - r\<bar> \<le> \<bar>r\<bar> / 2 ^ 53 + 1 / 10 ^ 20"
proof -
  have "(1::real) = 2 powi 0"
    by simp
  also have "\<dots> \<le> 2 powi 1023"
    by (intro power_int_increasing) auto
  finally have "\<bar>r\<bar> \<le> 2 powi 1023"
    using assms by linarith
  from rnd64_abs_err[OF this] obtain z where
    "rnd64 r = Fin z" "\<bar>z - r\<bar> \<le> \<bar>r\<bar> / 2 ^ 53 + 2 powi (- 1075)"
    by blast
  then have "rnd64 r = Fin z \<and> \<bar>z - r\<bar> \<le> \<bar>r\<bar> / 2 ^ 53 + 1 / 10 ^ 20"
    using rnd64_tiny by linarith
  then show ?thesis
    by blast
qed

section \<open>The scalar example: results\<close>

lemma sqrt_25_16: "sqrt (25 / 16) = 5 / 4"
  by (rule real_sqrt_unique) (simp_all add: power2_eq_square)

lemma hypot_3_4: "hypot (Fin 3) (Fin 4) = Inr (Fin 5)"
  by (simp add: hypot_def pymin_def pymax_def fdiv_def rnd64_3_4 rnd64_9_16 rnd64_25_16
      sqrt_25_16 rnd64_5_4 rnd64_5)

text \<open>
  Claim C2: on the inputs \<open>3.0\<close> and \<open>4.0\<close> both the accelerated \<open>hypot\<close>, the callable that
  \<open>@jit\<close> returns, and the original \<open>hypot.py_func\<close> yield exactly \<open>5.0\<close>. Every intermediate
  value (\<open>0.75\<close>, \<open>0.5625\<close>, \<open>1.5625\<close>, \<open>1.25\<close>) is a binary64 number, so no operation rounds.
\<close>

theorem hypot_3_4_yields_5:
  "jit2 Default hypot_obj (PFloat (Fin 3)) (PFloat (Fin 4)) = Inr (PFloat (Fin 5)) \<and>
   hypot_obj (PFloat (Fin 3)) (PFloat (Fin 4)) = Inr (PFloat (Fin 5))"
  by (simp add: jit2_def hypot_3_4)

lemma nonneg_fabs: "nonneg (fabs x)"
  by (cases x) simp_all

lemma nonneg_pymin: "nonneg a \<Longrightarrow> nonneg b \<Longrightarrow> nonneg (pymin a b)"
  by (simp add: pymin_def)

lemma nonneg_pymax: "nonneg a \<Longrightarrow> nonneg b \<Longrightarrow> nonneg (pymax a b)"
  by (simp add: pymax_def)

lemma nonneg_fquot: "nonneg a \<Longrightarrow> nonneg b \<Longrightarrow> b \<noteq> Fin 0 \<Longrightarrow> nonneg (fquot a b)"
  by (cases a; cases b) (simp_all add: rnd64_nonneg)

lemma nonneg_fmul_self: "nonneg t \<Longrightarrow> nonneg (fmul t t)"
  by (cases t) (simp_all add: rnd64_nonneg)

lemma nonneg_fadd_1: "nonneg z \<Longrightarrow> nonneg (fadd (Fin 1) z)"
  by (cases z) (simp_all add: rnd64_nonneg)

lemma fsqrt_nonneg: "nonneg z \<Longrightarrow> \<exists>r. fsqrt z = Inr r"
  by (cases z) simp_all

text \<open>
  The only operation of \<open>hypot\<close> that can raise is the division: the argument of
  \<open>math.sqrt\<close> is never below zero.
\<close>

lemma hypot_cases:
  "hypot x y =
     (if pymax (fabs x) (fabs y) = Fin 0 then Inl ZeroDivisionError
      else Inr (fmul (pymax (fabs x) (fabs y))
        (projr (fsqrt (fadd (Fin 1)
           (fmul (fquot (pymin (fabs x) (fabs y)) (pymax (fabs x) (fabs y)))
                 (fquot (pymin (fabs x) (fabs y)) (pymax (fabs x) (fabs y)))))))))"
proof (cases "pymax (fabs x) (fabs y) = Fin 0")
  case True
  then show ?thesis
    by (simp add: hypot_def fdiv_def)
next
  case False
  let ?t = "fquot (pymin (fabs x) (fabs y)) (pymax (fabs x) (fabs y))"
  have "nonneg ?t"
    using False by (intro nonneg_fquot nonneg_pymin nonneg_pymax nonneg_fabs)
  then have "nonneg (fadd (Fin 1) (fmul ?t ?t))"
    by (intro nonneg_fadd_1 nonneg_fmul_self)
  then obtain r where "fsqrt (fadd (Fin 1) (fmul ?t ?t)) = Inr r"
    using fsqrt_nonneg by blast
  then show ?thesis
    using False by (simp add: hypot_def fdiv_def Let_def)
qed

lemma hypot_error: "hypot x y = Inl e \<Longrightarrow> e = ZeroDivisionError"
  by (simp add: hypot_cases split: if_splits)

text \<open>
  Claim C7, as stated, fails: on the inputs \<open>0.0\<close> and \<open>0.0\<close> the division \<open>t / x\<close> divides
  by zero and raises \<open>ZeroDivisionError\<close>, so no value is returned.
\<close>

theorem hypot_zero_zero_raises: "hypot (Fin 0) (Fin 0) = Inl ZeroDivisionError"
  by (simp add: hypot_def pymin_def pymax_def fdiv_def)

text \<open>
  Claim C7, amended: for every pair of floats \<open>x\<close> and \<open>y\<close> for which \<open>max(abs(x), abs(y))\<close>,
  the divisor that \<open>hypot\<close> computes, is not zero, every operation of \<open>hypot\<close> completes
  normally and a value is returned.
\<close>

theorem hypot_returns_value:
  "pymax (fabs x) (fabs y) \<noteq> Fin 0 \<Longrightarrow> \<exists>v. hypot x y = Inr v"
  by (simp add: hypot_cases)

text \<open>The theorem above at the inputs \<open>3.0\<close> and \<open>4.0\<close>.\<close>

theorem hypot_returns_value_witness:
  "pymax (fabs (Fin 3)) (fabs (Fin 4)) \<noteq> Fin 0 \<and> (\<exists>v. hypot (Fin 3) (Fin 4) = Inr v)"
proof -
  have h: "pymax (fabs (Fin 3)) (fabs (Fin 4)) \<noteq> Fin 0"
    by (simp add: pymax_def)
  show ?thesis
    using h hypot_returns_value[OF h] by simp
qed

lemma pymin_commute: "a \<noteq> NaN \<Longrightarrow> b \<noteq> NaN \<Longrightarrow> pymin a b = pymin b a"
  by (cases a; cases b) (simp_all add: pymin_def)

lemma pymax_commute: "a \<noteq> NaN \<Longrightarrow> b \<noteq> NaN \<Longrightarrow> pymax a b = pymax b a"
  by (cases a; cases b) (simp_all add: pymax_def)

lemma fabs_NaN: "fabs x = NaN \<longleftrightarrow> x = NaN"
  by (cases x) simp_all

text \<open>
  Claim C8, as stated, fails when an input is a not-a-number, because \<open>min\<close> and \<open>max\<close> keep
  their first argument whenever the comparison is false: \<open>hypot(nan, 1.0)\<close> is \<open>nan\<close>, and
  \<open>hypot(1.0, nan)\<close> is \<open>1.0 * math.sqrt(2.0)\<close>, a number. In both orders
  \<open>max(abs(x), abs(y))\<close> is not zero.
\<close>

theorem hypot_nan_not_symmetric:
  "pymax (fabs NaN) (fabs (Fin 1)) \<noteq> Fin 0 \<and> pymax (fabs (Fin 1)) (fabs NaN) \<noteq> Fin 0 \<and>
   hypot NaN (Fin 1) = Inr NaN \<and> hypot (Fin 1) NaN \<noteq> Inr NaN"
proof -
  have a: "hypot NaN (Fin 1) = Inr NaN"
    by (simp add: hypot_def pymin_def pymax_def fdiv_def)
  have b: "hypot (Fin 1) NaN = Inr (fmul (Fin 1) (rnd64 (sqrt 2)))"
    by (simp add: hypot_def pymin_def pymax_def fdiv_def rnd64_1 rnd64_2)
  have "fmul (Fin 1) (rnd64 (sqrt 2)) \<noteq> NaN"
    using rnd64_not_NaN[of "sqrt 2"]
    by (cases "rnd64 (sqrt 2)") (simp_all add: rnd64_not_NaN)
  then show ?thesis
    using a b by (simp add: pymax_def)
qed

text \<open>
  Claim C8, amended: for every pair of floats \<open>x\<close> and \<open>y\<close>, neither of them a not-a-number,
  such that \<open>max(abs(x), abs(y))\<close> is not zero, \<open>hypot(x, y)\<close> equals \<open>hypot(y, x)\<close>.
\<close>

theorem hypot_symmetric:
  assumes "x \<noteq> NaN" and "y \<noteq> NaN" and "pymax (fabs x) (fabs y) \<noteq> Fin 0"
  shows "hypot x y = hypot y x"
proof -
  have n: "fabs x \<noteq> NaN" "fabs y \<noteq> NaN"
    using assms(1,2) by (simp_all add: fabs_NaN)
  have mn: "pymin (fabs x) (fabs y) = pymin (fabs y) (fabs x)"
    using n by (rule pymin_commute)
  have mx: "pymax (fabs x) (fabs y) = pymax (fabs y) (fabs x)"
    using n by (rule pymax_commute)
  show ?thesis
    unfolding hypot_def Let_def mn mx by (rule refl)
qed

text \<open>The theorem above at the inputs \<open>3.0\<close> and \<open>4.0\<close>.\<close>

theorem hypot_symmetric_witness:
  "Fin 3 \<noteq> NaN \<and> Fin 4 \<noteq> NaN \<and> pymax (fabs (Fin 3)) (fabs (Fin 4)) \<noteq> Fin 0 \<and>
   hypot (Fin 3) (Fin 4) = hypot (Fin 4) (Fin 3)"
proof -
  have h: "pymax (fabs (Fin 3)) (fabs (Fin 4)) \<noteq> Fin 0"
    by (simp add: pymax_def)
  have "hypot (Fin 3) (Fin 4) = hypot (Fin 4) (Fin 3)"
    by (rule hypot_symmetric[OF _ _ h]) simp_all
  then show ?thesis
    using h by simp
qed

section \<open>The function that cannot be compiled: results\<close>

text \<open>
  Claim C5: a dictionary passed to \<open>cannot_compile\<close> compiled with \<open>nopython=True\<close> raises the
  compiler's typing error; no value is returned.
\<close>

theorem cannot_compile_nopython_raises:
  "jit Nopython cannot_compile (PDict d) = Inl TypingError"
  by (simp add: jit_def)

text \<open>
  Claim C6: in the default mode the call \<open>cannot_compile(dict(key='value'))\<close> does not raise;
  it falls back to the Python function and returns the result of the lookup, the string
  \<open>'value'\<close>.
\<close>

theorem cannot_compile_default_returns_value:
  "jit Default cannot_compile (PDict [(''key'', PStr ''value'')]) = Inr (PStr ''value'')"
  by (simp add: jit_def)

section \<open>The array example: results\<close>

lemma ex1_sum_body_elementwise:
  "ex1_sum_body x y out = elementwise_body (\<lambda>a b. Inr (fadd a b)) x y out"
  by (intro ext) (simp add: ex1_sum_body_def elementwise_body_def getitem_def setitem_def)

lemma ex1_body_elementwise: "ex1_body x y out = elementwise_body hypot x y out"
  by (intro ext)
    (simp add: ex1_body_def elementwise_body_def getitem_def setitem_def split: sum.splits)

text \<open>One pass of the body writes at most \<open>out[i]\<close>, and no array changes its length.\<close>

lemma body_frame:
  assumes "elementwise_body f x y out i s = (r, s')"
  shows "(\<forall>a. a \<noteq> out \<longrightarrow> s' a = s a) \<and> length (s' out) = length (s out)
     \<and> (\<forall>j. j \<noteq> i \<longrightarrow> s' out ! j = s out ! j)"
  using assms by (auto simp: elementwise_body_def split: if_splits sum.splits)

lemma body_length:
  "elementwise_body f x y out i s = (r, s') \<Longrightarrow> length (s' a) = length (s a)"
  using body_frame[of f x y out i s r s'] by (cases "a = out") auto

lemma loop_frame:
  "for_range is (elementwise_body f x y out) s = (r, s') \<Longrightarrow>
     (\<forall>a. a \<noteq> out \<longrightarrow> s' a = s a) \<and> length (s' out) = length (s out)
     \<and> (\<forall>j. j \<notin> set is \<longrightarrow> s' out ! j = s out ! j)"
proof (induction "is" arbitrary: s)
  case Nil
  then show ?case by simp
next
  case (Cons i "is")
  obtain r1 s1 where b: "elementwise_body f x y out i s = (r1, s1)"
    by (cases "elementwise_body f x y out i s")
  note fr = body_frame[OF b]
  show ?case
  proof (cases r1)
    case None
    then have "for_range is (elementwise_body f x y out) s1 = (r, s')"
      using Cons.prems b by simp
    from Cons.IH[OF this] fr show ?thesis by simp
  next
    case (Some e)
    then have "s' = s1"
      using Cons.prems b by simp
    then show ?thesis
      using fr by simp
  qed
qed

text \<open>With every index of the loop in range of the three arrays, no access fails.\<close>

lemma loop_no_index_error:
  assumes "\<forall>i\<in>set is. i < length (s x) \<and> i < length (s y) \<and> i < length (s out)"
    and "\<And>a b. f a b \<noteq> Inl IndexError"
  shows "fst (for_range is (elementwise_body f x y out) s) \<noteq> Some IndexError"
  using assms(1)
proof (induction "is" arbitrary: s)
  case Nil
  then show ?case by simp
next
  case (Cons i "is")
  obtain r1 s1 where b: "elementwise_body f x y out i s = (r1, s1)"
    by (cases "elementwise_body f x y out i s")
  have len: "\<And>a. length (s1 a) = length (s a)"
    using b by (rule body_length)
  have r1: "r1 \<noteq> Some IndexError"
    using b Cons.prems assms(2)
    by (auto simp: elementwise_body_def split: sum.splits)
  show ?case
  proof (cases r1)
    case None
    have "fst (for_range is (elementwise_body f x y out) s1) \<noteq> Some IndexError"
      using Cons.prems by (intro Cons.IH) (simp add: len)
    then show ?thesis
      using b None by simp
  next
    case (Some e)
    then show ?thesis
      using b r1 by simp
  qed
qed

text \<open>
  With an output array that shares no memory with the inputs, and a combination that
  raises at no index: the loop runs to its end, and \<open>out[i]\<close> holds the combination of
  \<open>x[i]\<close> and \<open>y[i]\<close>.
\<close>

lemma loop_stores:
  assumes "out \<noteq> x" and "out \<noteq> y" and "distinct is"
    and "\<forall>i\<in>set is. i < length (s x) \<and> i < length (s y) \<and> i < length (s out)"
    and "\<forall>i\<in>set is. \<exists>h. f (s x ! i) (s y ! i) = Inr h"
  shows "fst (for_range is (elementwise_body f x y out) s) = None
    \<and> (\<forall>i\<in>set is. f (s x ! i) (s y ! i)
          = Inr (snd (for_range is (elementwise_body f x y out) s) out ! i))"
  using assms(3-5)
proof (induction "is" arbitrary: s)
  case Nil
  then show ?case by simp
next
  case (Cons i "is")
  let ?body = "elementwise_body f x y out"
  obtain h where h: "f (s x ! i) (s y ! i) = Inr h"
    using Cons.prems(3) by auto
  let ?s1 = "s(out := (s out)[i := h])"
  have b: "?body i s = (None, ?s1)"
    using Cons.prems(2) h by (simp add: elementwise_body_def)
  have xy: "?s1 x = s x" "?s1 y = s y"
    using assms(1,2) by simp_all
  have len: "length (?s1 out) = length (s out)"
    by simp
  have step: "for_range (i # is) ?body s = for_range is ?body ?s1"
    using b by simp
  have ih: "fst (for_range is ?body ?s1) = None
    \<and> (\<forall>k\<in>set is. f (?s1 x ! k) (?s1 y ! k) = Inr (snd (for_range is ?body ?s1) out ! k))"
  proof (rule Cons.IH)
    show "distinct is"
      using Cons.prems(1) by simp
    show "\<forall>k\<in>set is. k < length (?s1 x) \<and> k < length (?s1 y) \<and> k < length (?s1 out)"
      using Cons.prems(2) unfolding xy len by simp
    show "\<forall>k\<in>set is. \<exists>h. f (?s1 x ! k) (?s1 y ! k) = Inr h"
      using Cons.prems(3) unfolding xy by simp
  qed
  have "snd (for_range is ?body ?s1) out ! i = ?s1 out ! i"
    using loop_frame[of "is" f x y out ?s1
        "fst (for_range is ?body ?s1)" "snd (for_range is ?body ?s1)"] Cons.prems(1)
    by simp
  also have "\<dots> = h"
    using Cons.prems(2) by simp
  finally have here: "f (s x ! i) (s y ! i) = Inr (snd (for_range is ?body ?s1) out ! i)"
    using h by simp
  have rest: "\<forall>k\<in>set is. f (s x ! k) (s y ! k) = Inr (snd (for_range is ?body ?s1) out ! k)"
    using ih unfolding xy by simp
  show ?case
    unfolding step using ih here rest by simp
qed

lemma ex1_store_3_4: "ex1 store_3_4 0 1 2 = (None, store_3_4(2 := [Fin 5, Fin 9]))"
  by (simp add: ex1_def store_3_4_def ex1_body_def getitem_def setitem_def hypot_3_4)

lemma ex1_store_3_4_alias: "ex1 store_3_4 0 1 0 = (None, store_3_4(0 := [Fin 5]))"
  by (simp add: ex1_def store_3_4_def ex1_body_def getitem_def setitem_def hypot_3_4)

lemma ex1_sum_store_3_4_alias: "ex1_sum store_3_4 0 1 0 = (None, store_3_4(0 := [Fin 7]))"
  by (simp add: ex1_sum_def store_3_4_def ex1_sum_body_def getitem_def setitem_def rnd64_7)

text \<open>
  Claim C3, as stated, fails in two ways. The second cell rebinds \<open>ex1\<close>, and the \<open>ex1\<close> that
  the notebook calls and compares with the library function stores \<open>hypot(x[i], y[i])\<close>:
  with \<open>x = [3.0]\<close>, \<open>y = [4.0]\<close> and \<open>out\<close> of length 2 it returns normally and leaves
  \<open>out[0] = 5.0\<close>, while \<open>x[0] + y[0]\<close> is \<open>7.0\<close>. And the \<open>ex1\<close> of the first cell does not
  leave the sum when \<open>out\<close> shares memory with an input: after \<open>ex1(x, y, x)\<close> on the same
  arrays \<open>out[0]\<close> is \<open>7.0\<close>, and \<open>x[0] + y[0]\<close> is then \<open>11.0\<close>.
\<close>

theorem ex1_rebound_is_not_sum:
  "length (store_3_4 0) \<le> length (store_3_4 1) \<and> length (store_3_4 0) \<le> length (store_3_4 2) \<and>
   fst (ex1 store_3_4 0 1 2) = None \<and>
   snd (ex1 store_3_4 0 1 2) 2 ! 0 = Fin 5 \<and>
   fadd (snd (ex1 store_3_4 0 1 2) 0 ! 0) (snd (ex1 store_3_4 0 1 2) 1 ! 0) = Fin 7 \<and>
   fst (ex1_sum store_3_4 0 1 0) = None \<and>
   snd (ex1_sum store_3_4 0 1 0) 0 ! 0 = Fin 7 \<and>
   fadd (snd (ex1_sum store_3_4 0 1 0) 0 ! 0) (snd (ex1_sum store_3_4 0 1 0) 1 ! 0) = Fin 11"
proof -
  have "fst (ex1 store_3_4 0 1 2) = None \<and> snd (ex1 store_3_4 0 1 2) 2 ! 0 = Fin 5 \<and>
      fadd (snd (ex1 store_3_4 0 1 2) 0 ! 0) (snd (ex1 store_3_4 0 1 2) 1 ! 0) = Fin 7"
    unfolding ex1_store_3_4 by (simp add: store_3_4_def rnd64_7)
  moreover have "fst (ex1_sum store_3_4 0 1 0) = None \<and>
      snd (ex1_sum store_3_4 0 1 0) 0 ! 0 = Fin 7 \<and>
      fadd (snd (ex1_sum store_3_4 0 1 0) 0 ! 0) (snd (ex1_sum store_3_4 0 1 0) 1 ! 0) = Fin 11"
    unfolding ex1_sum_store_3_4_alias by (simp add: store_3_4_def rnd64_11)
  moreover have "length (store_3_4 0) \<le> length (store_3_4 1) \<and>
      length (store_3_4 0) \<le> length (store_3_4 2)"
    by (simp add: store_3_4_def)
  ultimately show ?thesis
    by blast
qed

text \<open>
  Claim C3, amended. The routine \<open>ex1\<close> as the first cell defines it, the starting point of
  the exercise, computes an element-wise array sum: for all float arrays \<open>x\<close>, \<open>y\<close> and \<open>out\<close>
  with \<open>y\<close> and \<open>out\<close> at least as long as \<open>x\<close>, and with \<open>out\<close> sharing no memory with \<open>x\<close> or
  \<open>y\<close>, the call returns normally, leaves \<open>x\<close> and \<open>y\<close> unchanged, and afterwards \<open>out[i]\<close>
  equals \<open>x[i] + y[i]\<close> for every index \<open>i\<close> below \<open>x.shape[0]\<close>. The \<open>ex1\<close> of the second
  cell, which the notebook then calls, stores \<open>hypot(x[i], y[i])\<close> instead: under the same
  conditions, and when \<open>max(abs(x[i]), abs(y[i]))\<close> is zero at no index \<open>i\<close> below
  \<open>x.shape[0]\<close>, the call returns normally and afterwards \<open>out[i]\<close> is the value that
  \<open>hypot(x[i], y[i])\<close> returns.
\<close>

theorem ex1_sum_adds:
  assumes "out \<noteq> x" and "out \<noteq> y"
    and "length (s x) \<le> length (s y)" and "length (s x) \<le> length (s out)"
  shows "fst (ex1_sum s x y out) = None \<and>
    snd (ex1_sum s x y out) x = s x \<and> snd (ex1_sum s x y out) y = s y \<and>
    (\<forall>i<length (s x). snd (ex1_sum s x y out) out ! i = fadd (s x ! i) (s y ! i)) \<and>
    ((\<forall>i<length (s x). pymax (fabs (s x ! i)) (fabs (s y ! i)) \<noteq> Fin 0) \<longrightarrow>
       fst (ex1 s x y out) = None \<and>
       (\<forall>i<length (s x). hypot (s x ! i) (s y ! i) = Inr (snd (ex1 s x y out) out ! i)))"
proof -
  let ?is = "[0..<length (s x)]"
  have bounds: "\<forall>i\<in>set ?is. i < length (s x) \<and> i < length (s y) \<and> i < length (s out)"
    using assms(3,4) by auto
  have sum: "ex1_sum s x y out
      = for_range ?is (elementwise_body (\<lambda>a b. Inr (fadd a b)) x y out) s"
    by (simp add: ex1_sum_def ex1_sum_body_elementwise)
  have "\<forall>i\<in>set ?is. \<exists>h. Inr (fadd (s x ! i) (s y ! i)) = (Inr h :: error + pyfloat)"
    by simp
  from loop_stores[OF assms(1,2) distinct_upt bounds, of "\<lambda>a b. Inr (fadd a b)", OF this]
  have a: "fst (ex1_sum s x y out) = None"
    and b: "\<forall>i<length (s x). snd (ex1_sum s x y out) out ! i = fadd (s x ! i) (s y ! i)"
    unfolding sum[symmetric] by auto
  have "for_range ?is (elementwise_body (\<lambda>a b. Inr (fadd a b)) x y out) s
      = (fst (ex1_sum s x y out), snd (ex1_sum s x y out))"
    unfolding sum[symmetric] by simp
  from loop_frame[OF this] assms(1,2)
  have c: "snd (ex1_sum s x y out) x = s x" "snd (ex1_sum s x y out) y = s y"
    by auto
  have d: "fst (ex1 s x y out) = None \<and>
      (\<forall>i<length (s x). hypot (s x ! i) (s y ! i) = Inr (snd (ex1 s x y out) out ! i))"
    if nz: "\<forall>i<length (s x). pymax (fabs (s x ! i)) (fabs (s y ! i)) \<noteq> Fin 0"
  proof -
    have live: "ex1 s x y out = for_range ?is (elementwise_body hypot x y out) s"
      by (simp add: ex1_def ex1_body_elementwise)
    have "\<forall>i\<in>set ?is. \<exists>h. hypot (s x ! i) (s y ! i) = Inr h"
      using nz by (simp add: hypot_cases)
    from loop_stores[OF assms(1,2) distinct_upt bounds this] show ?thesis
      unfolding live[symmetric] by auto
  qed
  show ?thesis
    using a b c d by blast
qed

text \<open>The theorem above on the store of the concrete runs, at index 0.\<close>

theorem ex1_sum_adds_witness:
  "(2::nat) \<noteq> 0 \<and> (2::nat) \<noteq> 1 \<and>
   length (store_3_4 0) \<le> length (store_3_4 1) \<and> length (store_3_4 0) \<le> length (store_3_4 2) \<and>
   pymax (fabs (store_3_4 0 ! 0)) (fabs (store_3_4 1 ! 0)) \<noteq> Fin 0 \<and>
   fst (ex1_sum store_3_4 0 1 2) = None \<and>
   snd (ex1_sum store_3_4 0 1 2) 0 = store_3_4 0 \<and> snd (ex1_sum store_3_4 0 1 2) 1 = store_3_4 1 \<and>
   snd (ex1_sum store_3_4 0 1 2) 2 ! 0 = fadd (store_3_4 0 ! 0) (store_3_4 1 ! 0) \<and>
   fst (ex1 store_3_4 0 1 2) = None \<and>
   hypot (store_3_4 0 ! 0) (store_3_4 1 ! 0) = Inr (snd (ex1 store_3_4 0 1 2) 2 ! 0)"
proof -
  have h1: "length (store_3_4 0) \<le> length (store_3_4 1)"
    by (simp add: store_3_4_def)
  have h2: "length (store_3_4 0) \<le> length (store_3_4 2)"
    by (simp add: store_3_4_def)
  have l: "length (store_3_4 0) = 1"
    by (simp add: store_3_4_def)
  have nz: "pymax (fabs (store_3_4 0 ! 0)) (fabs (store_3_4 1 ! 0)) \<noteq> Fin 0"
    by (simp add: store_3_4_def pymax_def)
  have "(2::nat) \<noteq> 0" and "(2::nat) \<noteq> 1"
    by simp_all
  from ex1_sum_adds[OF this h1 h2] show ?thesis
    using h1 h2 nz unfolding l by simp
qed

text \<open>
  Claim C9, as stated, fails when the output array is one of the input arrays: in the call
  \<open>ex1(x, y, x)\<close> with \<open>x = [3.0]\<close> and \<open>y = [4.0]\<close> the lengths are as required, and the input
  array \<open>x\<close> is \<open>[5.0]\<close> afterwards.
\<close>

theorem ex1_overwrites_aliased_input:
  "length (store_3_4 0) \<le> length (store_3_4 1) \<and> length (store_3_4 0) \<le> length (store_3_4 0) \<and>
   store_3_4 0 = [Fin 3] \<and> snd (ex1 store_3_4 0 1 0) 0 = [Fin 5]"
proof -
  have "snd (ex1 store_3_4 0 1 0) 0 = [Fin 5]"
    unfolding ex1_store_3_4_alias by simp
  moreover have "length (store_3_4 0) \<le> length (store_3_4 1) \<and> store_3_4 0 = [Fin 3]"
    by (simp add: store_3_4_def)
  ultimately show ?thesis
    by blast
qed

text \<open>
  Claim C9, amended: for every call \<open>ex1(x, y, out)\<close> with \<open>y\<close> and \<open>out\<close> at least as long as
  \<open>x\<close>, and with \<open>out\<close> an array other than \<open>x\<close> and \<open>y\<close>, the input arrays \<open>x\<close> and \<open>y\<close> are
  unchanged, \<open>out\<close> keeps its length, and every entry \<open>out[i]\<close> with \<open>i\<close> at or beyond
  \<open>x.shape[0]\<close> keeps its prior value. This holds of the store that the call leaves
  whether it returns or raises.
\<close>

theorem ex1_frame:
  assumes "out \<noteq> x" and "out \<noteq> y"
    and "length (s x) \<le> length (s y)" and "length (s x) \<le> length (s out)"
  shows "snd (ex1 s x y out) x = s x \<and> snd (ex1 s x y out) y = s y \<and>
    length (snd (ex1 s x y out) out) = length (s out) \<and>
    (\<forall>i. length (s x) \<le> i \<and> i < length (s out) \<longrightarrow> snd (ex1 s x y out) out ! i = s out ! i)"
proof -
  have "for_range [0..<length (s x)] (elementwise_body hypot x y out) s
      = (fst (ex1 s x y out), snd (ex1 s x y out))"
    by (simp add: ex1_def ex1_body_elementwise)
  from loop_frame[OF this] assms(1,2) show ?thesis
    by auto
qed

text \<open>The theorem above on the store of the concrete runs, at index 1 of \<open>out\<close>.\<close>

theorem ex1_frame_witness:
  "(2::nat) \<noteq> 0 \<and> (2::nat) \<noteq> 1 \<and>
   length (store_3_4 0) \<le> length (store_3_4 1) \<and> length (store_3_4 0) \<le> length (store_3_4 2) \<and>
   snd (ex1 store_3_4 0 1 2) 0 = store_3_4 0 \<and> snd (ex1 store_3_4 0 1 2) 1 = store_3_4 1 \<and>
   length (snd (ex1 store_3_4 0 1 2) 2) = length (store_3_4 2) \<and>
   snd (ex1 store_3_4 0 1 2) 2 ! 1 = store_3_4 2 ! 1"
proof -
  have h1: "length (store_3_4 0) \<le> length (store_3_4 1)"
    by (simp add: store_3_4_def)
  have h2: "length (store_3_4 0) \<le> length (store_3_4 2)"
    by (simp add: store_3_4_def)
  have i: "length (store_3_4 0) \<le> 1 \<and> 1 < length (store_3_4 2)"
    by (simp add: store_3_4_def)
  have "(2::nat) \<noteq> 0" and "(2::nat) \<noteq> 1"
    by simp_all
  from ex1_frame[OF this h1 h2] h1 h2 i show ?thesis
    by simp
qed

text \<open>
  Claim C10: when \<open>y\<close> and \<open>out\<close> each have length at least \<open>x.shape[0]\<close>, every index access
  of \<open>ex1\<close> (the reads of \<open>x[i]\<close> and \<open>y[i]\<close>, the write of \<open>out[i]\<close>) is in bounds: the call
  never ends in \<open>IndexError\<close>. The loop runs over the finitely many indices below
  \<open>x.shape[0]\<close>, so the call ends, with the store it leaves.
\<close>

theorem ex1_in_bounds:
  assumes "length (s x) \<le> length (s y)" and "length (s x) \<le> length (s out)"
  shows "fst (ex1 s x y out) \<noteq> Some IndexError"
proof -
  have "\<forall>i\<in>set [0..<length (s x)]. i < length (s x) \<and> i < length (s y) \<and> i < length (s out)"
    using assms by auto
  moreover have "\<And>a b. hypot a b \<noteq> Inl IndexError"
    using hypot_error by fastforce
  ultimately have "fst (for_range [0..<length (s x)] (elementwise_body hypot x y out) s)
      \<noteq> Some IndexError"
    by (rule loop_no_index_error)
  then show ?thesis
    by (simp add: ex1_def ex1_body_elementwise)
qed

text \<open>The theorem above on the store of the concrete runs.\<close>

theorem ex1_in_bounds_witness:
  "length (store_3_4 0) \<le> length (store_3_4 1) \<and> length (store_3_4 0) \<le> length (store_3_4 2) \<and>
   fst (ex1 store_3_4 0 1 2) \<noteq> Some IndexError"
proof -
  have h1: "length (store_3_4 0) \<le> length (store_3_4 1)"
    by (simp add: store_3_4_def)
  have h2: "length (store_3_4 0) \<le> length (store_3_4 2)"
    by (simp add: store_3_4_def)
  show ?thesis
    using ex1_in_bounds[OF h1 h2] h1 h2 by simp
qed

section \<open>The run of the notebook: results\<close>

lemma sqrt_diff_le:
  assumes "0 \<le> x" and "1 \<le> y"
  shows "\<bar>sqrt x - sqrt y\<bar> \<le> \<bar>x - y\<bar>"
proof -
  have s: "1 \<le> sqrt x + sqrt y"
    using assms by (smt (verit) real_sqrt_ge_zero real_sqrt_ge_one)
  have "(sqrt x - sqrt y) * (sqrt x + sqrt y) = x - y"
    using assms by (simp add: algebra_simps)
  then have "\<bar>x - y\<bar> = \<bar>(sqrt x - sqrt y) * (sqrt x + sqrt y)\<bar>"
    by simp
  also have "\<dots> = \<bar>sqrt x - sqrt y\<bar> * \<bar>sqrt x + sqrt y\<bar>"
    by (rule abs_mult)
  also have "\<bar>sqrt x + sqrt y\<bar> = sqrt x + sqrt y"
    using s by linarith
  finally have "\<bar>x - y\<bar> = \<bar>sqrt x - sqrt y\<bar> * (sqrt x + sqrt y)" .
  moreover have "\<bar>sqrt x - sqrt y\<bar> * 1 \<le> \<bar>sqrt x - sqrt y\<bar> * (sqrt x + sqrt y)"
    using s by (intro mult_left_mono) auto
  ultimately have "\<bar>sqrt x - sqrt y\<bar> * 1 \<le> \<bar>x - y\<bar>"
    by (simp only:)
  then show ?thesis
    by simp
qed

text \<open>
  The five roundings of \<open>hypot\<close> on numbers between 1 and 32, the smaller one first: the
  result is a number within \<open>10**(-13)\<close> of the real hypotenuse.
\<close>

lemma hypot_close:
  assumes a1: "1 \<le> a" and ab: "a \<le> b" and b32: "b \<le> 32"
  shows "\<exists>v. hypot (Fin a) (Fin b) = Inr (Fin v) \<and> \<bar>v - sqrt (a\<^sup>2 + b\<^sup>2)\<bar> \<le> 1 / 10 ^ 13"
proof -
  define E :: real where "E = 1 / 2 ^ 53"
  have E: "0 < E" "E \<le> 1 / 1000"
    by (simp_all add: E_def)
  have bpos: "0 < b"
    using a1 ab by linarith
  define T where "T = a / b"
  have T: "1 / 32 \<le> T" "T \<le> 1"
    using a1 ab b32 bpos by (simp_all add: T_def field_simps)
  obtain t1 where t1: "rnd64 T = Fin t1" "\<bar>t1 - T\<bar> \<le> T / 2 ^ 53"
    using rnd64_rel[of T] T by auto
  have "T / 2 ^ 53 \<le> 1 / 2 ^ 53"
    using T(2) by (intro divide_right_mono) auto
  then have t1e: "\<bar>t1 - T\<bar> \<le> E"
    using t1(2) by (simp add: E_def)
  have t1b: "1 / 64 \<le> t1" "t1 \<le> 1 + E"
    using t1e T E by linarith+
  define p where "p = t1 * t1"
  have "1 / 64 * (1 / 64) \<le> t1 * t1"
    using t1b(1) by (intro mult_mono) auto
  then have plo: "1 / 4096 \<le> p"
    by (simp add: p_def)
  have "t1 * t1 \<le> (1 + E) * (1 + E)"
    using t1b E by (intro mult_mono) auto
  moreover have "E * E \<le> E * 1"
    using E by (intro mult_left_mono) auto
  ultimately have phi: "p \<le> 1 + 3 * E"
    by (simp add: p_def algebra_simps)
  obtain t2 where t2: "rnd64 p = Fin t2" "\<bar>t2 - p\<bar> \<le> p / 2 ^ 53"
    using rnd64_rel[of p] plo phi E by auto
  have "p / 2 ^ 53 \<le> 2 / 2 ^ 53"
    using phi E by (intro divide_right_mono) auto
  then have t2e: "\<bar>t2 - p\<bar> \<le> 2 * E"
    using t2(2) by (simp add: E_def)
  have "\<bar>p - T * T\<bar> = \<bar>t1 - T\<bar> * \<bar>t1 + T\<bar>"
    by (simp add: p_def algebra_simps flip: abs_mult)
  also have "\<dots> \<le> E * 3"
    using t1e t1b T E by (intro mult_mono) auto
  finally have pT: "\<bar>p - T * T\<bar> \<le> 3 * E"
    by simp
  have TT: "0 \<le> T * T" "T * T \<le> 1"
    using T by (auto intro: mult_le_one)
  have t2T: "\<bar>t2 - T * T\<bar> \<le> 5 * E"
    using t2e pT by linarith
  define q where "q = 1 + t2"
  have qb: "1 / 2 \<le> q" "q \<le> 3"
    unfolding q_def using t2T TT E by linarith+
  obtain s where s: "rnd64 q = Fin s" "\<bar>s - q\<bar> \<le> q / 2 ^ 53"
    using rnd64_rel[of q] qb by auto
  have "q / 2 ^ 53 \<le> 3 / 2 ^ 53"
    using qb by (intro divide_right_mono) auto
  then have se: "\<bar>s - q\<bar> \<le> 3 * E"
    using s(2) by (simp add: E_def)
  have sT: "\<bar>s - (1 + T * T)\<bar> \<le> 8 * E"
    using se t2T by (simp add: q_def)
  have sb: "1 / 2 \<le> s" "s \<le> 3"
    using sT TT E by linarith+
  define R where "R = sqrt (1 + T * T)"
  have Rb: "1 \<le> R" "R \<le> 2"
  proof -
    show "1 \<le> R"
      unfolding R_def using TT by (intro real_le_rsqrt) auto
    show "R \<le> 2"
      unfolding R_def using TT by (intro real_le_lsqrt) auto
  qed
  have "\<bar>sqrt s - R\<bar> \<le> \<bar>s - (1 + T * T)\<bar>"
    unfolding R_def using sb TT by (intro sqrt_diff_le) auto
  then have sR: "\<bar>sqrt s - R\<bar> \<le> 8 * E"
    using sT by linarith
  have ssb: "1 / 2 \<le> sqrt s" "sqrt s \<le> 3"
    using sR Rb E by linarith+
  obtain r where r: "rnd64 (sqrt s) = Fin r" "\<bar>r - sqrt s\<bar> \<le> sqrt s / 2 ^ 53"
    using rnd64_rel[of "sqrt s"] ssb by auto
  have "sqrt s / 2 ^ 53 \<le> 3 / 2 ^ 53"
    using ssb by (intro divide_right_mono) auto
  then have re: "\<bar>r - sqrt s\<bar> \<le> 3 * E"
    using r(2) by (simp add: E_def)
  have rR: "\<bar>r - R\<bar> \<le> 11 * E"
    using re sR by linarith
  have rb: "1 / 2 \<le> r" "r \<le> 2 + 11 * E"
    using rR Rb E by linarith+
  define m where "m = b * r"
  have "1 * (1 / 2) \<le> b * r"
    using rb bpos a1 ab by (intro mult_mono) auto
  then have mlo: "1 / 2 \<le> m"
    by (simp add: m_def)
  have "b * r \<le> 32 * (2 + 11 * E)"
    using rb b32 bpos by (intro mult_mono) auto
  then have mhi: "m \<le> 65"
    using E by (simp add: m_def)
  obtain v where v: "rnd64 m = Fin v" "\<bar>v - m\<bar> \<le> m / 2 ^ 53"
    using rnd64_rel[of m] mlo mhi by auto
  have "m / 2 ^ 53 \<le> 65 / 2 ^ 53"
    using mhi by (intro divide_right_mono) auto
  then have ve: "\<bar>v - m\<bar> \<le> 65 * E"
    using v(2) by (simp add: E_def)
  have "\<bar>m - b * R\<bar> = b * \<bar>r - R\<bar>"
    using bpos by (simp add: m_def abs_mult flip: right_diff_distrib)
  also have "\<dots> \<le> 32 * (11 * E)"
    using rR b32 bpos by (intro mult_mono) auto
  finally have mR: "\<bar>m - b * R\<bar> \<le> 352 * E"
    by simp
  have bR: "b * R = sqrt (a\<^sup>2 + b\<^sup>2)"
  proof -
    have "b * R = sqrt (b\<^sup>2) * sqrt (1 + T * T)"
      using bpos by (simp add: R_def)
    also have "\<dots> = sqrt (b\<^sup>2 * (1 + T * T))"
      by (simp add: real_sqrt_mult)
    also have "b\<^sup>2 * (1 + T * T) = a\<^sup>2 + b\<^sup>2"
      using bpos by (simp add: T_def power2_eq_square field_simps)
    finally show ?thesis .
  qed
  have final: "\<bar>v - sqrt (a\<^sup>2 + b\<^sup>2)\<bar> \<le> 417 * E"
    using ve mR bR by linarith
  have mn: "pymin (Fin a) (Fin b) = Fin a"
    using ab by (simp add: pymin_def)
  have mx: "pymax (Fin a) (Fin b) = Fin b"
    using ab by (auto simp: pymax_def)
  have "hypot (Fin a) (Fin b) = Inr (Fin v)"
    using a1 bpos sb
    by (simp add: hypot_def Let_def mn mx fdiv_def T_def[symmetric] t1 p_def[symmetric] t2
        q_def[symmetric] s r m_def[symmetric] v)
  then show ?thesis
    using final by (simp add: E_def)
qed

lemma in1_nth: "i < 10 \<Longrightarrow> in1 ! i = Fin (real i)"
  by (simp add: in1_def)

lemma length_in1: "length in1 = 10"
  by (simp add: in1_def)

lemma twice_plus_one:
  assumes "i < 10"
  shows "fadd (fmul (Fin 2) (Fin (real i))) (Fin 1) = Fin (2 * real i + 1)"
proof -
  have a: "rnd64 (2 * real i) = Fin (2 * real i)"
  proof (cases "i = 0")
    case True
    then show ?thesis by (simp add: rnd64_def)
  next
    case False
    then have "rnd64 (real (2 * i)) = Fin (real (2 * i))"
      using assms by (intro rnd64_of_nat) auto
    moreover have "real (2 * i) = 2 * real i"
      by simp
    ultimately show ?thesis
      by (simp only:)
  qed
  have "rnd64 (real (2 * i + 1)) = Fin (real (2 * i + 1))"
    using assms by (intro rnd64_of_nat) auto
  moreover have "real (2 * i + 1) = 2 * real i + 1"
    by simp
  ultimately have b: "rnd64 (2 * real i + 1) = Fin (2 * real i + 1)"
    by (simp only:)
  have "fmul (Fin 2) (Fin (real i)) = Fin (2 * real i)"
    using a by simp
  then show ?thesis
    using b by simp
qed

lemma length_in2: "length in2 = 10"
  by (simp add: in2_def in1_def)

lemma in2_nth: "i < 10 \<Longrightarrow> in2 ! i = Fin (2 * real i + 1)"
  unfolding in2_def using length_in1 in1_nth[of i] twice_plus_one[of i]
  by (simp del: fmul.simps fadd.simps)

lemma hypot_0_1: "hypot (Fin 0) (Fin 1) = Inr (Fin 1)"
  using rnd64_of_nat[of 1]
  by (simp add: hypot_def pymin_def pymax_def fdiv_def rnd64_def[of 0])

lemma hypot_in:
  assumes "i < 10"
  shows "\<exists>v. hypot (in1 ! i) (in2 ! i) = Inr (Fin v)
    \<and> \<bar>v - sqrt ((real i)\<^sup>2 + (2 * real i + 1)\<^sup>2)\<bar> \<le> 1 / 10 ^ 13"
proof (cases "i = 0")
  case True
  then show ?thesis
    using assms by (simp add: in1_nth in2_nth hypot_0_1)
next
  case False
  then have "1 \<le> real i" "real i \<le> 2 * real i + 1" "2 * real i + 1 \<le> 32"
    using assms by simp_all
  from hypot_close[OF this] show ?thesis
    using assms by (simp add: in1_nth in2_nth)
qed

text \<open>
  The threshold of the comparison is at least \<open>1.4 * 10**(-7)\<close>, and two numbers no more
  than \<open>1.1 * 10**(-7)\<close> apart pass it.
\<close>

lemma decimal7_lower: "\<exists>t. decimal7 = Fin t \<and> 14 / 10 ^ 8 \<le> t"
proof -
  obtain a where
    a: "rnd64 (1 / 10 ^ 7) = Fin a" "\<bar>a - 1 / 10 ^ 7\<bar> \<le> \<bar>1 / 10 ^ 7\<bar> / 2 ^ 53 + 1 / 10 ^ 20"
    using rnd64_err[of "1 / 10 ^ 7"] by auto
  have "\<bar>1 / 10 ^ 7\<bar> / 2 ^ 53 + 1 / 10 ^ 20 \<le> (1 / 10 ^ 9 :: real)"
    by simp
  then have "\<bar>a - 1 / 10 ^ 7\<bar> \<le> 1 / 10 ^ 9"
    using a(2) by linarith
  moreover have "(1 / 10 ^ 7 :: real) = 100 / 10 ^ 9"
    by simp
  ultimately have ab: "99 / 10 ^ 9 \<le> a" "a \<le> 101 / 10 ^ 9"
    by linarith+
  have a1: "\<bar>3 / 2 * a\<bar> \<le> 152 / 10 ^ 9"
    using ab by (simp add: abs_le_iff)
  then have "\<bar>3 / 2 * a\<bar> \<le> 1"
    by simp
  then obtain t where
    t: "rnd64 (3 / 2 * a) = Fin t" "\<bar>t - 3 / 2 * a\<bar> \<le> \<bar>3 / 2 * a\<bar> / 2 ^ 53 + 1 / 10 ^ 20"
    using rnd64_err[of "3 / 2 * a"] by auto
  have "\<bar>3 / 2 * a\<bar> / 2 ^ 53 \<le> 1 / 2 ^ 53"
    using a1 by (intro divide_right_mono) simp_all
  moreover have "1 / 2 ^ 53 + 1 / 10 ^ 20 \<le> (1 / 10 ^ 9 :: real)"
    by simp
  ultimately have "\<bar>t - 3 / 2 * a\<bar> \<le> 1 / 10 ^ 9"
    using t(2) by linarith
  moreover have "3 / 2 * (99 / 10 ^ 9) \<le> 3 / 2 * a"
    using ab(1) by (intro mult_left_mono) simp_all
  moreover have "(14 / 10 ^ 8 :: real) \<le> 3 / 2 * (99 / 10 ^ 9) - 1 / 10 ^ 9"
    by simp
  ultimately have "14 / 10 ^ 8 \<le> t"
    by linarith
  moreover have "decimal7 = Fin t"
    unfolding decimal7_def a(1) using t(1) by simp
  ultimately show ?thesis
    by blast
qed

lemma almost_equal_close:
  assumes "\<bar>w - v\<bar> \<le> 11 / 10 ^ 8"
  shows "almost_equal (Fin v) (Fin w)"
proof -
  have "\<bar>w - v\<bar> \<le> 1"
    using assms by simp
  then obtain z where
    z: "rnd64 (w - v) = Fin z" "\<bar>z - (w - v)\<bar> \<le> \<bar>w - v\<bar> / 2 ^ 53 + 1 / 10 ^ 20"
    using rnd64_err[of "w - v"] by auto
  have "\<bar>w - v\<bar> / 2 ^ 53 \<le> 1 / 2 ^ 53"
    using assms by (intro divide_right_mono) simp_all
  moreover have "1 / 2 ^ 53 + 1 / 10 ^ 20 \<le> (1 / 10 ^ 8 :: real)"
    by simp
  moreover have "(11 / 10 ^ 8 :: real) + 1 / 10 ^ 8 = 12 / 10 ^ 8"
    by simp
  ultimately have zb: "\<bar>z\<bar> \<le> 12 / 10 ^ 8"
    using z(2) assms by linarith
  obtain t where t: "decimal7 = Fin t" "14 / 10 ^ 8 \<le> t"
    using decimal7_lower by blast
  have "(12 / 10 ^ 8 :: real) < 14 / 10 ^ 8"
    by simp
  then have "\<bar>z\<bar> < t"
    using zb t(2) by linarith
  moreover have "fsub (Fin w) (Fin v) = Fin z"
    using z(1) by (simp add: fsub_def)
  ultimately show ?thesis
    unfolding almost_equal.simps t(1) by simp
qed

text \<open>
  Claim C4: for the fixed arrays of the notebook, \<open>in1 = arange(10)\<close> as float64 and
  \<open>in2 = 2*in1 + 1\<close>, and whatever \<open>np.empty_like\<close> left in \<open>out\<close>, the call
  \<open>ex1(in1, in2, out)\<close> returns normally and the array \<open>out\<close> is then almost equal, element
  by element, to the result of \<open>np.hypot(in1, in2)\<close>: each \<open>out[i]\<close> is within \<open>10**(-13)\<close> of
  the real hypotenuse, and the reference within \<open>10**(-7)\<close> of it.
\<close>

theorem ex1_almost_equal_np_hypot:
  assumes "length out0 = 10" and "np_hypot_result in1 in2 ref"
  shows "fst (ex1 (notebook_store out0) 0 1 2) = None \<and>
    list_all2 almost_equal (snd (ex1 (notebook_store out0) 0 1 2) 2) ref"
proof -
  let ?s = "notebook_store out0"
  let ?r = "ex1 ?s 0 1 2"
  have s: "?s 0 = in1" "?s 1 = in2" "?s (Suc 0) = in2" "?s 2 = out0"
    by (simp_all add: notebook_store_def)
  have run: "?r = for_range [0..<10] (elementwise_body hypot 0 1 2) ?s"
    by (simp add: ex1_def ex1_body_elementwise s length_in1)
  have bounds: "\<forall>i\<in>set [0..<10]. i < length (?s 0) \<and> i < length (?s 1) \<and> i < length (?s 2)"
    by (simp add: notebook_store_def length_in1 length_in2 assms(1))
  have "\<exists>h. hypot (in1 ! i) (in2 ! i) = Inr h" if "i < 10" for i
    using hypot_in[OF that] by blast
  then have ok: "\<forall>i\<in>set [0..<10]. \<exists>h. hypot (?s 0 ! i) (?s 1 ! i) = Inr h"
    by (simp add: s)
  have "(2::nat) \<noteq> 0" and "(2::nat) \<noteq> 1"
    by simp_all
  from loop_stores[OF this distinct_upt bounds ok]
  have "fst ?r = None \<and> (\<forall>i\<in>set [0..<10]. hypot (in1 ! i) (in2 ! i) = Inr (snd ?r 2 ! i))"
    unfolding run[symmetric] s .
  then have ran: "fst ?r = None"
    and vals: "\<forall>i<10. hypot (in1 ! i) (in2 ! i) = Inr (snd ?r 2 ! i)"
    by simp_all
  have "for_range [0..<10] (elementwise_body hypot 0 1 2) ?s = (fst ?r, snd ?r)"
    unfolding run[symmetric] by simp
  from loop_frame[OF this] have len: "length (snd ?r 2) = 10"
    unfolding s using assms(1) by simp
  have "almost_equal (snd ?r 2 ! i) (ref ! i)" if i: "i < 10" for i
  proof -
    obtain v where v: "hypot (in1 ! i) (in2 ! i) = Inr (Fin v)"
      "\<bar>v - sqrt ((real i)\<^sup>2 + (2 * real i + 1)\<^sup>2)\<bar> \<le> 1 / 10 ^ 13"
      using hypot_in[OF i] by auto
    have o: "snd ?r 2 ! i = Fin v"
      using vals i v(1) by simp
    obtain w where w: "ref ! i = Fin w"
      "\<bar>w - sqrt ((real i)\<^sup>2 + (2 * real i + 1)\<^sup>2)\<bar> \<le> 1 / 10 ^ 7"
      using assms(2) i by (auto simp: np_hypot_result_def length_in1 in1_nth in2_nth)
    have "\<bar>w - v\<bar> \<le> 1 / 10 ^ 7 + 1 / 10 ^ 13"
      using v(2) w(2) by linarith
    then have "\<bar>w - v\<bar> \<le> 11 / 10 ^ 8"
      by simp
    then show ?thesis
      unfolding o w by (rule almost_equal_close)
  qed
  moreover have "length ref = 10"
    using assms(2) by (simp add: np_hypot_result_def length_in1)
  ultimately have "list_all2 almost_equal (snd ?r 2) ref"
    using len by (simp add: list_all2_conv_all_nth)
  then show ?thesis
    using ran by simp
qed

lemma hypot_rounded_result: "np_hypot_result in1 in2 (map2 hypot_rounded in1 in2)"
proof -
  have "\<exists>w. rnd64 (sqrt ((real i)\<^sup>2 + (2 * real i + 1)\<^sup>2)) = Fin w
      \<and> \<bar>w - sqrt ((real i)\<^sup>2 + (2 * real i + 1)\<^sup>2)\<bar> \<le> 1 / 10 ^ 7" if i: "i < 10" for i
  proof -
    let ?h = "sqrt ((real i)\<^sup>2 + (2 * real i + 1)\<^sup>2)"
    have "real i \<le> 9"
      using i by simp
    then have sq: "(real i)\<^sup>2 \<le> 81" "(2 * real i + 1)\<^sup>2 \<le> 361"
      using power_mono[of "real i" 9 2] power_mono[of "2 * real i + 1" 19 2] by simp_all
    have "(2 * real i + 1)\<^sup>2 = 4 * (real i)\<^sup>2 + 4 * real i + 1"
      by (simp add: power2_eq_square algebra_simps)
    moreover have "0 \<le> (real i)\<^sup>2"
      by simp
    ultimately have "1\<^sup>2 \<le> (real i)\<^sup>2 + (2 * real i + 1)\<^sup>2"
      by simp
    then have lo: "1 \<le> ?h"
      by (rule real_le_rsqrt)
    have hi: "?h \<le> 32"
      using sq by (intro real_le_lsqrt) simp_all
    obtain w where w: "rnd64 ?h = Fin w" "\<bar>w - ?h\<bar> \<le> ?h / 2 ^ 53"
      using rnd64_rel[of ?h] lo hi by auto
    have "?h / 2 ^ 53 \<le> 32 / 2 ^ 53"
      using hi by (intro divide_right_mono) auto
    then have "\<bar>w - ?h\<bar> \<le> 1 / 10 ^ 7"
      using w(2) by simp
    then show ?thesis
      using w(1) by blast
  qed
  then show ?thesis
    by (auto simp: np_hypot_result_def hypot_rounded_def length_in1 length_in2 in1_nth in2_nth)
qed

text \<open>
  The theorem above with \<open>out\<close> holding ten not-a-numbers before the call, and with the
  correctly rounded hypotenuse as the reference.
\<close>

theorem ex1_almost_equal_np_hypot_witness:
  "length (replicate 10 NaN) = 10 \<and>
   fst (ex1 (notebook_store (replicate 10 NaN)) 0 1 2) = None \<and>
   list_all2 almost_equal (snd (ex1 (notebook_store (replicate 10 NaN)) 0 1 2) 2)
     (map2 hypot_rounded in1 in2)"
proof -
  have h: "length (replicate 10 NaN) = 10"
    by simp
  show ?thesis
    using ex1_almost_equal_np_hypot[OF h hypot_rounded_result] h by simp
qed

end
